theory Spec2Isabelle
  imports Main "HOL-Library.AList"
begin

section \<open>Element trees\<close>

text \<open>
  The custom element classes of \<^verbatim>\<open>docx/oxml/table.py\<close> are lxml elements. An element has
  a tag, string-valued attributes and an ordered sequence of child elements. lxml elements
  are compared by identity (\<^verbatim>\<open>list.index\<close> in \<^verbatim>\<open>CT_Row.tr_idx\<close> relies on it), so every
  node carries an identity \<open>ident\<close>; a function that creates nodes takes the fresh
  identities as an argument. Tags and attribute names are written with their namespace
  prefix, as the source writes them (\<^verbatim>\<open>'w:tc'\<close>).
\<close>

datatype error = InvalidXmlError | ValueError | AttributeError

datatype element =
  Element (ident: nat) (tag: string) (attrib: "(string \<times> string) list") (children: "element list")

definition set_children :: "element \<Rightarrow> element list \<Rightarrow> element" where
  "set_children e cs = Element (ident e) (tag e) (attrib e) cs"

definition set_attrib :: "element \<Rightarrow> (string \<times> string) list \<Rightarrow> element" where
  "set_attrib e al = Element (ident e) (tag e) al (children e)"

text \<open>\<^verbatim>\<open>OxmlElement(tag)\<close>: a new element without attributes and children.\<close>

definition OxmlElement :: "nat \<Rightarrow> string \<Rightarrow> element" where
  "OxmlElement n t = Element n t [] []"

text \<open>\<^verbatim>\<open>element.find(tag)\<close>: the first child with that tag, or \<^verbatim>\<open>None\<close>.\<close>

definition find_child :: "element \<Rightarrow> string \<Rightarrow> element option" where
  "find_child e t = find (\<lambda>c. tag c = t) (children e)"

text \<open>\<^verbatim>\<open>element.findall(tag)\<close>: all children with that tag, in document order.\<close>

definition findall :: "element \<Rightarrow> string \<Rightarrow> element list" where
  "findall e t = filter (\<lambda>c. tag c = t) (children e)"

text \<open>The position of the first child with tag \<open>t\<close> among the children \<open>cs\<close>.\<close>

fun child_index :: "string \<Rightarrow> element list \<Rightarrow> nat option" where
  "child_index t [] = None"
| "child_index t (c # cs) = (if tag c = t then Some 0 else map_option Suc (child_index t cs))"

text \<open>\<^verbatim>\<open>element.get(name)\<close>, \<^verbatim>\<open>element.set(name, value)\<close> and \<^verbatim>\<open>del element.attrib[name]\<close>.\<close>

definition get_attr :: "element \<Rightarrow> string \<Rightarrow> string option" where
  "get_attr e k = map_of (attrib e) k"

definition set_attr :: "element \<Rightarrow> string \<Rightarrow> string \<Rightarrow> element" where
  "set_attr e k v = set_attrib e (AList.update k v (attrib e))"

definition del_attr :: "element \<Rightarrow> string \<Rightarrow> element" where
  "del_attr e k = set_attrib e (AList.delete k (attrib e))"

text \<open>\<^verbatim>\<open>element.insert(i, child)\<close>, \<^verbatim>\<open>element.append(child)\<close> and \<^verbatim>\<open>element.remove(child)\<close>
  (the child is found by identity; removing an element that is not a child raises
  \<^verbatim>\<open>ValueError\<close>).\<close>

definition insert_at :: "element \<Rightarrow> nat \<Rightarrow> element \<Rightarrow> element" where
  "insert_at e i c = set_children e (take i (children e) @ [c] @ drop i (children e))"

definition append_child :: "element \<Rightarrow> element \<Rightarrow> element" where
  "append_child e c = set_children e (children e @ [c])"

definition remove_child :: "element \<Rightarrow> element \<Rightarrow> error + element" where
  "remove_child e c =
     (if list_ex (\<lambda>d. ident d = ident c) (children e)
      then Inr (set_children e (filter (\<lambda>d. ident d \<noteq> ident c) (children e)))
      else Inl ValueError)"

text \<open>
  A write to a child object is a write to the tree: the child at the position of the first
  child tagged \<open>t\<close> is replaced by its updated value. On \<^verbatim>\<open>None\<close> the attribute access of
  the source raises \<^verbatim>\<open>AttributeError\<close>.
\<close>

definition update_child :: "string \<Rightarrow> (element \<Rightarrow> error + element) \<Rightarrow> element \<Rightarrow> error + element" where
  "update_child t f e =
     (case child_index t (children e) of
        None \<Rightarrow> Inl AttributeError
      | Some i \<Rightarrow>
          (case f (children e ! i) of
             Inl err \<Rightarrow> Inl err
           | Inr c \<Rightarrow> Inr (set_children e ((children e)[i := c]))))"

section \<open>Python integers as text\<close>

text \<open>
  \<^verbatim>\<open>str(n)\<close> and \<^verbatim>\<open>int(s)\<close> on the plain decimal notation (an optional sign and decimal
  digits). \<^verbatim>\<open>int\<close> raises \<^verbatim>\<open>ValueError\<close> on any other text here; the blank-padded and
  digit-grouped notations that Python also reads are not written by this code.
\<close>

definition digit_char :: "nat \<Rightarrow> char" where
  "digit_char d = ''0123456789'' ! d"

definition digit_val :: "char \<Rightarrow> nat option" where
  "digit_val c =
     map_of [(CHR ''0'', 0), (CHR ''1'', 1), (CHR ''2'', 2), (CHR ''3'', 3), (CHR ''4'', 4),
             (CHR ''5'', 5), (CHR ''6'', 6), (CHR ''7'', 7), (CHR ''8'', 8), (CHR ''9'', 9)] c"

fun str_nat :: "nat \<Rightarrow> string" where
  "str_nat n = (if n < 10 then [digit_char n] else str_nat (n div 10) @ [digit_char (n mod 10)])"

definition str_int :: "int \<Rightarrow> string" where
  "str_int i = (if i < 0 then CHR ''-'' # str_nat (nat (- i)) else str_nat (nat i))"

fun read_digits :: "nat \<Rightarrow> string \<Rightarrow> nat option" where
  "read_digits acc [] = Some acc"
| "read_digits acc (c # cs) =
     (case digit_val c of None \<Rightarrow> None | Some d \<Rightarrow> read_digits (10 * acc + d) cs)"

definition read_nat :: "string \<Rightarrow> nat option" where
  "read_nat s = (if s = [] then None else read_digits 0 s)"

definition py_int :: "string \<Rightarrow> error + int" where
  "py_int s =
     (case s of
        [] \<Rightarrow> Inl ValueError
      | c # cs \<Rightarrow>
          if c = CHR ''-'' then (case read_nat cs of None \<Rightarrow> Inl ValueError | Some n \<Rightarrow> Inr (- int n))
          else if c = CHR ''+'' then (case read_nat cs of None \<Rightarrow> Inl ValueError | Some n \<Rightarrow> Inr (int n))
          else (case read_nat s of None \<Rightarrow> Inl ValueError | Some n \<Rightarrow> Inr (int n)))"

declare str_nat.simps [simp del]

section \<open>Lengths\<close>

text \<open>
  Modelled from the spec: the measurement-unit library (\<^verbatim>\<open>Length\<close>, \<^verbatim>\<open>Emu\<close> and \<^verbatim>\<open>Twips\<close> of
  \<^verbatim>\<open>docx/shared.py\<close>) is not among the sources. A length is an integer number of English
  Metric Units (the docstrings of the \<^verbatim>\<open>width\<close> properties say ``the EMU length value'');
  the document unit is one twentieth of a point, which is 635 EMU. \<^verbatim>\<open>Emu(v)\<close> is the
  length of \<open>v\<close> EMU, \<^verbatim>\<open>Twips(t)\<close> the length of \<open>t\<close> document units, and \<^verbatim>\<open>length.twips\<close>
  the integer number of document units nearest to the length. 635 is odd, so no length
  lies halfway between two document units and the rounding rule for ties plays no role.
\<close>

definition EMUS_PER_TWIP :: int where
  "EMUS_PER_TWIP = 635"

definition Emu :: "int \<Rightarrow> int" where
  "Emu emu = emu"

definition Twips :: "int \<Rightarrow> int" where
  "Twips t = t * EMUS_PER_TWIP"

definition twips :: "int \<Rightarrow> int" where
  "twips len = (2 * len + EMUS_PER_TWIP) div (2 * EMUS_PER_TWIP)"

section \<open>Simple types\<close>

text \<open>
  Modelled from the spec: the simple types of \<^verbatim>\<open>docx/oxml/simpletypes.py\<close> are not among
  the sources. A simple type reads an attribute text with \<^verbatim>\<open>from_xml\<close> and writes a value
  with \<^verbatim>\<open>to_xml\<close>, which validates the value first. The restricted enumerations are
  strings: \<^verbatim>\<open>auto\<close>, \<^verbatim>\<open>dxa\<close>, \<^verbatim>\<open>nil\<close>, \<^verbatim>\<open>pct\<close> for a width type and \<^verbatim>\<open>continue\<close>,
  \<^verbatim>\<open>restart\<close> for a merge state. \<^verbatim>\<open>XsdInt\<close> is a 32-bit signed integer in decimal notation.
  The values that \<^verbatim>\<open>ST_TblLayoutType\<close> admits are a parameter of the model
  (\<open>layout_types\<close> below).
\<close>

definition enum_to_xml :: "string list \<Rightarrow> string \<Rightarrow> error + string" where
  "enum_to_xml valid_values v = (if v \<in> set valid_values then Inr v else Inl ValueError)"

definition ST_TblWidth_values :: "string list" where
  "ST_TblWidth_values = [''auto'', ''dxa'', ''nil'', ''pct'']"

definition ST_Merge_CONTINUE :: string where
  "ST_Merge_CONTINUE = ''continue''"

definition ST_Merge_RESTART :: string where
  "ST_Merge_RESTART = ''restart''"

definition XsdInt_to_xml :: "int \<Rightarrow> error + string" where
  "XsdInt_to_xml v =
     (if - 2147483648 \<le> v \<and> v \<le> 2147483647 then Inr (str_int v) else Inl ValueError)"

definition XsdInt_from_xml :: "string \<Rightarrow> error + int" where
  "XsdInt_from_xml s = py_int s"

section \<open>Declarative children and attributes\<close>

text \<open>
  Modelled from the spec: the declarative mechanism of \<^verbatim>\<open>docx/oxml/xmlchemy.py\<close>
  (\<^verbatim>\<open>RequiredAttribute\<close>, \<^verbatim>\<open>OptionalAttribute\<close>, \<^verbatim>\<open>ZeroOrOne\<close>, \<^verbatim>\<open>ZeroOrMore\<close>,
  \<^verbatim>\<open>OneAndOnlyOne\<close>) is not among the sources. A required attribute that is absent is a
  structural-validity error on read. An optional attribute that is absent reads as its
  default; writing the default removes the attribute, and any other value is validated and
  stored. A zero-or-one child reads as the first child with its tag or as \<^verbatim>\<open>None\<close>;
  \<^verbatim>\<open>get_or_add\<close> returns it, after adding a new child when there is none; a new child is
  inserted before the first existing successor, where the declared successor tags are
  tried in their order, and appended when no successor exists.
\<close>

definition RequiredAttribute_get :: "string \<Rightarrow> (string \<Rightarrow> error + 'a) \<Rightarrow> element \<Rightarrow> error + 'a" where
  "RequiredAttribute_get name from_xml e =
     (case get_attr e name of None \<Rightarrow> Inl InvalidXmlError | Some s \<Rightarrow> from_xml s)"

definition RequiredAttribute_set :: "string \<Rightarrow> ('a \<Rightarrow> error + string) \<Rightarrow> 'a \<Rightarrow> element \<Rightarrow> error + element" where
  "RequiredAttribute_set name to_xml v e =
     (case to_xml v of Inl err \<Rightarrow> Inl err | Inr s \<Rightarrow> Inr (set_attr e name s))"

definition OptionalAttribute_get :: "string \<Rightarrow> string option \<Rightarrow> element \<Rightarrow> string option" where
  "OptionalAttribute_get name dflt e =
     (case get_attr e name of None \<Rightarrow> dflt | Some s \<Rightarrow> Some s)"

definition OptionalAttribute_set ::
  "string \<Rightarrow> (string \<Rightarrow> error + string) \<Rightarrow> string option \<Rightarrow> string \<Rightarrow> element \<Rightarrow> error + element" where
  "OptionalAttribute_set name to_xml dflt v e =
     (if Some v = dflt then Inr (del_attr e name)
      else (case to_xml v of Inl err \<Rightarrow> Inl err | Inr s \<Rightarrow> Inr (set_attr e name s)))"

definition OneAndOnlyOne :: "string \<Rightarrow> element \<Rightarrow> error + element" where
  "OneAndOnlyOne t e = (case find_child e t of None \<Rightarrow> Inl InvalidXmlError | Some c \<Rightarrow> Inr c)"

fun first_child_found_in :: "string list \<Rightarrow> element list \<Rightarrow> nat option" where
  "first_child_found_in [] cs = None"
| "first_child_found_in (t # ts) cs =
     (case child_index t cs of Some i \<Rightarrow> Some i | None \<Rightarrow> first_child_found_in ts cs)"

definition insert_element_before :: "element \<Rightarrow> string list \<Rightarrow> element \<Rightarrow> element" where
  "insert_element_before elm tagnames e =
     (case first_child_found_in tagnames (children e) of
        Some i \<Rightarrow> insert_at e i elm
      | None \<Rightarrow> append_child e elm)"

definition add_child :: "nat \<Rightarrow> string \<Rightarrow> string list \<Rightarrow> element \<Rightarrow> element" where
  "add_child n t successors e = insert_element_before (OxmlElement n t) successors e"

definition get_or_add :: "nat \<Rightarrow> string \<Rightarrow> string list \<Rightarrow> element \<Rightarrow> element" where
  "get_or_add n t successors e =
     (case find_child e t of None \<Rightarrow> add_child n t successors e | Some c \<Rightarrow> e)"

section \<open>The element classes of the table\<close>

subsection \<open>\<^verbatim>\<open>CT_Row\<close> and \<^verbatim>\<open>CT_Tbl\<close>\<close>

definition tc_lst :: "element \<Rightarrow> element list" where
  "tc_lst tr = findall tr ''w:tc''"

definition tr_lst :: "element \<Rightarrow> element list" where
  "tr_lst tbl = findall tbl ''w:tr''"

text \<open>\<^verbatim>\<open>list.index(x)\<close> on a list of elements: the position of the element that is \<open>x\<close>.\<close>

fun index_of :: "element \<Rightarrow> element list \<Rightarrow> nat option" where
  "index_of x [] = None"
| "index_of x (y # ys) = (if ident y = ident x then Some 0 else map_option Suc (index_of x ys))"

text \<open>
  \<^verbatim>\<open>CT_Row.tr_idx\<close>. The parent that \<^verbatim>\<open>getparent()\<close> returns is an argument; it is
  \<^verbatim>\<open>None\<close> for a row outside a tree.
\<close>

definition CT_Row_tr_idx :: "element option \<Rightarrow> element \<Rightarrow> error + nat" where
  "CT_Row_tr_idx parent self =
     (case parent of
        None \<Rightarrow> Inl AttributeError
      | Some tbl \<Rightarrow>
          (case index_of self (tr_lst tbl) of None \<Rightarrow> Inl ValueError | Some i \<Rightarrow> Inr i))"

definition tblPr :: "element \<Rightarrow> error + element" where
  "tblPr tbl = OneAndOnlyOne ''w:tblPr'' tbl"

definition tblGrid :: "element \<Rightarrow> error + element" where
  "tblGrid tbl = OneAndOnlyOne ''w:tblGrid'' tbl"

text \<open>\<^verbatim>\<open>CT_Tbl.iter_tcs\<close>: the outer loop over the rows, the inner loop over a row's cells.\<close>

fun iter_rows :: "element list \<Rightarrow> element list" where
  "iter_rows [] = []"
| "iter_rows (tr # trs) = tc_lst tr @ iter_rows trs"

definition CT_Tbl_iter_tcs :: "element \<Rightarrow> element list" where
  "CT_Tbl_iter_tcs tbl = iter_rows (tr_lst tbl)"

text \<open>\<^verbatim>\<open>CT_Tbl.new\<close>: the tree that the XML text of \<^verbatim>\<open>_tbl_xml\<close> denotes.\<close>

definition CT_Tbl_new :: "nat \<Rightarrow> element" where
  "CT_Tbl_new n =
     Element n ''w:tbl'' []
       [Element (n + 1) ''w:tblPr'' []
          [Element (n + 2) ''w:tblW'' [(''w:type'', ''auto''), (''w:w'', ''0'')] []],
        Element (n + 3) ''w:tblGrid'' [] []]"

definition gridCol_lst :: "element \<Rightarrow> element list" where
  "gridCol_lst g = findall g ''w:gridCol''"

definition CT_Tbl_col_count :: "element \<Rightarrow> error + nat" where
  "CT_Tbl_col_count tbl =
     (case tblGrid tbl of Inl err \<Rightarrow> Inl err | Inr g \<Rightarrow> Inr (length (gridCol_lst g)))"

subsection \<open>\<^verbatim>\<open>CT_TblLayoutType\<close> and \<^verbatim>\<open>CT_TblPr\<close>\<close>

definition CT_TblLayoutType_type :: "element \<Rightarrow> string option" where
  "CT_TblLayoutType_type e = OptionalAttribute_get ''w:type'' None e"

definition CT_TblLayoutType_type_set :: "string list \<Rightarrow> string \<Rightarrow> element \<Rightarrow> error + element" where
  "CT_TblLayoutType_type_set layout_types v e =
     OptionalAttribute_set ''w:type'' (enum_to_xml layout_types) None v e"

definition tblLayout_successors :: "string list" where
  "tblLayout_successors =
     [''w:tblLayout'', ''w:tblCellMar'', ''w:tblLook'', ''w:tblCaption'',
      ''w:tblDescription'', ''w:tblPrChange'']"

definition CT_TblPr_autofit :: "element \<Rightarrow> bool" where
  "CT_TblPr_autofit e =
     (case find_child e ''w:tblLayout'' of
        None \<Rightarrow> True
      | Some tblLayout \<Rightarrow> (if CT_TblLayoutType_type tblLayout = Some ''fixed'' then False else True))"

definition CT_TblPr_autofit_set :: "string list \<Rightarrow> nat \<Rightarrow> bool \<Rightarrow> element \<Rightarrow> error + element" where
  "CT_TblPr_autofit_set layout_types n v e =
     update_child ''w:tblLayout''
       (CT_TblLayoutType_type_set layout_types (if v then ''autofit'' else ''fixed''))
       (get_or_add n ''w:tblLayout'' tblLayout_successors e)"

subsection \<open>\<^verbatim>\<open>CT_TblWidth\<close>\<close>

definition CT_TblWidth_w :: "element \<Rightarrow> error + int" where
  "CT_TblWidth_w e = RequiredAttribute_get ''w:w'' XsdInt_from_xml e"

definition CT_TblWidth_type :: "element \<Rightarrow> error + string" where
  "CT_TblWidth_type e = RequiredAttribute_get ''w:type'' Inr e"

definition CT_TblWidth_width :: "element \<Rightarrow> error + int option" where
  "CT_TblWidth_width e =
     (case CT_TblWidth_type e of
        Inl err \<Rightarrow> Inl err
      | Inr ty \<Rightarrow>
          if ty \<noteq> ''dxa'' then Inr None
          else (case CT_TblWidth_w e of Inl err \<Rightarrow> Inl err | Inr w \<Rightarrow> Inr (Some (Twips w))))"

definition CT_TblWidth_width_set :: "int \<Rightarrow> element \<Rightarrow> error + element" where
  "CT_TblWidth_width_set v e =
     (case RequiredAttribute_set ''w:type'' (enum_to_xml ST_TblWidth_values) ''dxa'' e of
        Inl err \<Rightarrow> Inl err
      | Inr e1 \<Rightarrow> RequiredAttribute_set ''w:w'' XsdInt_to_xml (twips (Emu v)) e1)"

subsection \<open>\<^verbatim>\<open>CT_VMerge\<close> and \<^verbatim>\<open>CT_TcPr\<close>\<close>

definition CT_VMerge_val :: "element \<Rightarrow> string option" where
  "CT_VMerge_val e = OptionalAttribute_get ''w:val'' (Some ST_Merge_CONTINUE) e"

text \<open>
  Modelled from the spec: the class of the grid-span child (\<^verbatim>\<open>CT_DecimalNumber\<close>) is not
  among the sources; its \<^verbatim>\<open>val\<close> is a required integer attribute.
\<close>

definition CT_DecimalNumber_val :: "element \<Rightarrow> error + int" where
  "CT_DecimalNumber_val e = RequiredAttribute_get ''w:val'' XsdInt_from_xml e"

definition tag_seq :: "string list" where
  "tag_seq =
     [''w:cnfStyle'', ''w:tcW'', ''w:gridSpan'', ''w:hMerge'', ''w:vMerge'',
      ''w:tcBorders'', ''w:shd'', ''w:noWrap'', ''w:tcMar'', ''w:textDirection'',
      ''w:tcFitText'', ''w:vAlign'', ''w:hideMark'', ''w:headers'', ''w:cellIns'',
      ''w:cellDel'', ''w:cellMerge'', ''w:tcPrChange'']"

definition get_or_add_tcW :: "nat \<Rightarrow> element \<Rightarrow> element" where
  "get_or_add_tcW n e = get_or_add n ''w:tcW'' (drop 2 tag_seq) e"

definition get_or_add_gridSpan :: "nat \<Rightarrow> element \<Rightarrow> element" where
  "get_or_add_gridSpan n e = get_or_add n ''w:gridSpan'' (drop 3 tag_seq) e"

definition get_or_add_vMerge :: "nat \<Rightarrow> element \<Rightarrow> element" where
  "get_or_add_vMerge n e = get_or_add n ''w:vMerge'' (drop 5 tag_seq) e"

definition CT_TcPr_grid_span :: "element \<Rightarrow> error + int" where
  "CT_TcPr_grid_span e =
     (case find_child e ''w:gridSpan'' of
        None \<Rightarrow> Inr 1
      | Some gridSpan \<Rightarrow> CT_DecimalNumber_val gridSpan)"

definition CT_TcPr_vMerge_val :: "element \<Rightarrow> string option" where
  "CT_TcPr_vMerge_val e =
     (case find_child e ''w:vMerge'' of
        None \<Rightarrow> None
      | Some vMerge \<Rightarrow> CT_VMerge_val vMerge)"

definition CT_TcPr_width :: "element \<Rightarrow> error + int option" where
  "CT_TcPr_width e =
     (case find_child e ''w:tcW'' of
        None \<Rightarrow> Inr None
      | Some tcW \<Rightarrow> CT_TblWidth_width tcW)"

definition CT_TcPr_width_set :: "nat \<Rightarrow> int \<Rightarrow> element \<Rightarrow> error + element" where
  "CT_TcPr_width_set n v e =
     update_child ''w:tcW'' (CT_TblWidth_width_set v) (get_or_add_tcW n e)"

text \<open>A call of one of the three \<^verbatim>\<open>get_or_add\<close> methods of \<^verbatim>\<open>CT_TcPr\<close>, and a run of calls.\<close>

datatype tcPr_call = Call_tcW | Call_gridSpan | Call_vMerge

fun run_call :: "nat \<times> tcPr_call \<Rightarrow> element \<Rightarrow> element" where
  "run_call (n, Call_tcW) e = get_or_add_tcW n e"
| "run_call (n, Call_gridSpan) e = get_or_add_gridSpan n e"
| "run_call (n, Call_vMerge) e = get_or_add_vMerge n e"

fun run_calls :: "(nat \<times> tcPr_call) list \<Rightarrow> element \<Rightarrow> element" where
  "run_calls [] e = e"
| "run_calls (c # cs) e = run_calls cs (run_call c e)"

text \<open>The tag of the child that a call returns or adds.\<close>

fun call_tag :: "tcPr_call \<Rightarrow> string" where
  "call_tag Call_tcW = ''w:tcW''"
| "call_tag Call_gridSpan = ''w:gridSpan''"
| "call_tag Call_vMerge = ''w:vMerge''"

text \<open>The place of a tag in the fixed sequence (the length of the sequence for a foreign tag).\<close>

fun rank_in :: "string list \<Rightarrow> string \<Rightarrow> nat" where
  "rank_in [] t = 0"
| "rank_in (s # ss) t = (if s = t then 0 else Suc (rank_in ss t))"

definition schema_order :: "element list \<Rightarrow> bool" where
  "schema_order cs =
     (list_all (\<lambda>c. tag c \<in> set tag_seq) cs \<and> sorted (map (\<lambda>c. rank_in tag_seq (tag c)) cs))"

subsection \<open>\<^verbatim>\<open>CT_Tc\<close>\<close>

definition tcPr :: "element \<Rightarrow> element option" where
  "tcPr tc = find_child tc ''w:tcPr''"


definition CT_Tc_grid_span :: "element \<Rightarrow> error + int" where
  "CT_Tc_grid_span tc = (case tcPr tc of None \<Rightarrow> Inr 1 | Some pr \<Rightarrow> CT_TcPr_grid_span pr)"

definition CT_Tc_new :: "nat \<Rightarrow> element" where
  "CT_Tc_new n = Element n ''w:tc'' [] [Element (n + 1) ''w:p'' [] []]"

definition CT_Tc_vMerge :: "element \<Rightarrow> string option" where
  "CT_Tc_vMerge tc = (case tcPr tc of None \<Rightarrow> None | Some pr \<Rightarrow> CT_TcPr_vMerge_val pr)"

definition CT_Tc_width :: "element \<Rightarrow> error + int option" where
  "CT_Tc_width tc = (case tcPr tc of None \<Rightarrow> Inr None | Some pr \<Rightarrow> CT_TcPr_width pr)"

definition CT_Tc_insert_tcPr :: "element \<Rightarrow> element \<Rightarrow> element" where
  "CT_Tc_insert_tcPr pr tc = insert_at tc 0 pr"

definition get_or_add_tcPr :: "nat \<Rightarrow> element \<Rightarrow> element" where
  "get_or_add_tcPr n tc =
     (case tcPr tc of None \<Rightarrow> CT_Tc_insert_tcPr (OxmlElement n ''w:tcPr'') tc | Some pr \<Rightarrow> tc)"

definition CT_Tc_width_set :: "nat \<Rightarrow> nat \<Rightarrow> int \<Rightarrow> element \<Rightarrow> error + element" where
  "CT_Tc_width_set n m v tc =
     update_child ''w:tcPr'' (CT_TcPr_width_set m v) (get_or_add_tcPr n tc)"

section \<open>Fresh cells and tables\<close>

lemma py_int_0: "py_int ''0'' = Inr 0"
  by (simp add: py_int_def read_nat_def digit_val_def)

text \<open>
  C9. A cell made by \<^verbatim>\<open>CT_Tc.new\<close> has exactly one child, an empty paragraph, and no cell
  properties; its grid span reads as 1, its vertical merge and its width read as
  \<^verbatim>\<open>None\<close>, and none of the three reads raises.
\<close>

theorem CT_Tc_new_fresh:
  "children (CT_Tc_new n) = [Element (n + 1) ''w:p'' [] []]
   \<and> tcPr (CT_Tc_new n) = None
   \<and> CT_Tc_grid_span (CT_Tc_new n) = Inr 1
   \<and> CT_Tc_vMerge (CT_Tc_new n) = None
   \<and> CT_Tc_width (CT_Tc_new n) = Inr None"
  by (simp add: CT_Tc_new_def tcPr_def find_child_def CT_Tc_grid_span_def CT_Tc_vMerge_def
      CT_Tc_width_def)

text \<open>
  C3. A table made by \<^verbatim>\<open>CT_Tbl.new\<close> has a properties child whose width child has type
  \<^verbatim>\<open>auto\<close> and magnitude 0, an empty grid and no rows; its column count is 0 and its
  properties read as autofit.
\<close>

theorem CT_Tbl_new_minimal:
  "tblPr (CT_Tbl_new n) =
     Inr (Element (n + 1) ''w:tblPr'' []
            [Element (n + 2) ''w:tblW'' [(''w:type'', ''auto''), (''w:w'', ''0'')] []])
   \<and> (\<exists>pr w. tblPr (CT_Tbl_new n) = Inr pr \<and> find_child pr ''w:tblW'' = Some w
         \<and> CT_TblWidth_type w = Inr ''auto'' \<and> CT_TblWidth_w w = Inr 0
         \<and> CT_TblPr_autofit pr = True)
   \<and> tblGrid (CT_Tbl_new n) = Inr (Element (n + 3) ''w:tblGrid'' [] [])
   \<and> tr_lst (CT_Tbl_new n) = []
   \<and> CT_Tbl_col_count (CT_Tbl_new n) = Inr 0"
  by (simp add: CT_Tbl_new_def tblPr_def tblGrid_def OneAndOnlyOne_def find_child_def findall_def
      tr_lst_def CT_Tbl_col_count_def gridCol_lst_def CT_TblWidth_type_def CT_TblWidth_w_def
      RequiredAttribute_get_def get_attr_def XsdInt_from_xml_def py_int_0 CT_TblPr_autofit_def)

section \<open>Reading a width\<close>

lemma width_not_dxa:
  "get_attr e ''w:type'' = Some ty \<Longrightarrow> ty \<noteq> ''dxa'' \<Longrightarrow> CT_TblWidth_width e = Inr None"
  by (simp add: CT_TblWidth_width_def CT_TblWidth_type_def RequiredAttribute_get_def)

lemma width_Some_dxa:
  "CT_TblWidth_width e = Inr (Some len) \<Longrightarrow> get_attr e ''w:type'' = Some ''dxa''"
  by (auto simp: CT_TblWidth_width_def CT_TblWidth_type_def RequiredAttribute_get_def
      split: option.splits sum.splits if_splits)

text \<open>
  C6. A width element of type \<^verbatim>\<open>auto\<close>, \<^verbatim>\<open>nil\<close> or \<^verbatim>\<open>pct\<close> reads as \<^verbatim>\<open>None\<close> without an
  error, directly and through the cell properties that hold it; a read that yields a
  length comes from an element of type \<^verbatim>\<open>dxa\<close>.
\<close>

theorem width_read_unset:
  "(get_attr e ''w:type'' = Some ty \<and> ty \<in> {''auto'', ''nil'', ''pct''}
      \<longrightarrow> CT_TblWidth_width e = Inr None)
   \<and> (find_child pr ''w:tcW'' = Some e \<and> get_attr e ''w:type'' = Some ty
        \<and> ty \<in> {''auto'', ''nil'', ''pct''} \<longrightarrow> CT_TcPr_width pr = Inr None)
   \<and> (CT_TblWidth_width e = Inr (Some len) \<longrightarrow> get_attr e ''w:type'' = Some ''dxa'')"
proof (intro conjI impI)
  assume "get_attr e ''w:type'' = Some ty \<and> ty \<in> {''auto'', ''nil'', ''pct''}"
  then show "CT_TblWidth_width e = Inr None"
    by (auto intro: width_not_dxa)
next
  assume "find_child pr ''w:tcW'' = Some e \<and> get_attr e ''w:type'' = Some ty
        \<and> ty \<in> {''auto'', ''nil'', ''pct''}"
  then show "CT_TcPr_width pr = Inr None"
    by (auto simp: CT_TcPr_width_def intro: width_not_dxa)
next
  assume "CT_TblWidth_width e = Inr (Some len)"
  then show "get_attr e ''w:type'' = Some ''dxa''" by (rule width_Some_dxa)
qed

theorem width_read_unset_witness:
  "CT_TblWidth_width (Element 7 ''w:tcW'' [(''w:w'', ''5000''), (''w:type'', ''pct'')] []) = Inr None
   \<and> CT_TcPr_width (Element 6 ''w:tcPr'' []
        [Element 7 ''w:tcW'' [(''w:w'', ''5000''), (''w:type'', ''pct'')] []]) = Inr None
   \<and> CT_TblWidth_width (Element 7 ''w:tcW'' [(''w:w'', ''20''), (''w:type'', ''dxa'')] [])
        = Inr (Some 12700)
   \<and> get_attr (Element 7 ''w:tcW'' [(''w:w'', ''20''), (''w:type'', ''dxa'')] []) ''w:type''
        = Some ''dxa''"
  using width_read_unset [of "Element 7 ''w:tcW'' [(''w:w'', ''5000''), (''w:type'', ''pct'')] []"
      "''pct''"
      "Element 6 ''w:tcPr'' [] [Element 7 ''w:tcW'' [(''w:w'', ''5000''), (''w:type'', ''pct'')] []]"]
    width_read_unset [of "Element 7 ''w:tcW'' [(''w:w'', ''20''), (''w:type'', ''dxa'')] []"
      _ _ 12700]
  by (simp add: get_attr_def find_child_def CT_TblWidth_width_def CT_TblWidth_type_def
      CT_TblWidth_w_def RequiredAttribute_get_def XsdInt_from_xml_def py_int_def read_nat_def
      digit_val_def Twips_def EMUS_PER_TWIP_def)

section \<open>Vertical merge\<close>

text \<open>
  C5. The vertical merge of a cell has two layers of defaults. Without cell properties, or
  without a \<^verbatim>\<open>w:vMerge\<close> child in them, the read yields \<^verbatim>\<open>None\<close>. With the child present
  and its \<^verbatim>\<open>w:val\<close> attribute absent the read yields \<^verbatim>\<open>continue\<close>, which differs from
  \<^verbatim>\<open>None\<close>; with the attribute present the read yields its text.
\<close>

theorem vMerge_two_defaults:
  "(tcPr tc = None \<longrightarrow> CT_Tc_vMerge tc = None)
   \<and> (\<forall>pr. tcPr tc = Some pr \<and> find_child pr ''w:vMerge'' = None \<longrightarrow> CT_Tc_vMerge tc = None)
   \<and> (\<forall>pr vm. tcPr tc = Some pr \<and> find_child pr ''w:vMerge'' = Some vm
          \<and> get_attr vm ''w:val'' = None \<longrightarrow> CT_Tc_vMerge tc = Some ''continue'')
   \<and> (\<forall>pr vm s. tcPr tc = Some pr \<and> find_child pr ''w:vMerge'' = Some vm
          \<and> get_attr vm ''w:val'' = Some s \<longrightarrow> CT_Tc_vMerge tc = Some s)
   \<and> (None :: string option) \<noteq> Some ''continue''"
  by (simp add: CT_Tc_vMerge_def CT_TcPr_vMerge_val_def CT_VMerge_val_def
      OptionalAttribute_get_def ST_Merge_CONTINUE_def)

theorem vMerge_two_defaults_witness:
  "CT_Tc_vMerge (CT_Tc_new 0) = None
   \<and> CT_Tc_vMerge (Element 0 ''w:tc'' [] [Element 1 ''w:tcPr'' [] [], Element 2 ''w:p'' [] []]) = None
   \<and> CT_Tc_vMerge (Element 0 ''w:tc'' []
        [Element 1 ''w:tcPr'' [] [Element 3 ''w:vMerge'' [] []], Element 2 ''w:p'' [] []])
       = Some ''continue''
   \<and> CT_Tc_vMerge (Element 0 ''w:tc'' []
        [Element 1 ''w:tcPr'' [] [Element 3 ''w:vMerge'' [(''w:val'', ''restart'')] []],
         Element 2 ''w:p'' [] []])
       = Some ''restart''"
  using vMerge_two_defaults [of "CT_Tc_new 0"]
    vMerge_two_defaults [of "Element 0 ''w:tc'' [] [Element 1 ''w:tcPr'' [] [], Element 2 ''w:p'' [] []]"]
    vMerge_two_defaults [of "Element 0 ''w:tc'' []
        [Element 1 ''w:tcPr'' [] [Element 3 ''w:vMerge'' [] []], Element 2 ''w:p'' [] []]"]
    vMerge_two_defaults [of "Element 0 ''w:tc'' []
        [Element 1 ''w:tcPr'' [] [Element 3 ''w:vMerge'' [(''w:val'', ''restart'')] []],
         Element 2 ''w:p'' [] []]"]
  by (simp add: tcPr_def find_child_def get_attr_def CT_Tc_new_def)

section \<open>Clearing a cell\<close>

lemma find_child_Some_tag: "find_child e t = Some c \<Longrightarrow> tag c = t \<and> c \<in> set (children e)"
  by (auto simp: find_child_def find_Some_iff)


section \<open>Iterating over the cells\<close>

lemma iter_rows_concat: "iter_rows trs = concat (map tc_lst trs)"
  by (induction trs) simp_all

lemma iter_rows_length:
  "\<forall>tr \<in> set trs. length (tc_lst tr) = C \<Longrightarrow> length (iter_rows trs) = length trs * C"
  by (induction trs) simp_all

lemma iter_rows_nth:
  "\<forall>tr \<in> set trs. length (tc_lst tr) = C \<Longrightarrow> r < length trs \<Longrightarrow> c < C
   \<Longrightarrow> iter_rows trs ! (r * C + c) = tc_lst (trs ! r) ! c"
proof (induction trs arbitrary: r)
  case Nil
  then show ?case by simp
next
  case (Cons tr trs)
  show ?case
  proof (cases r)
    case 0
    with Cons.prems show ?thesis by (simp add: nth_append)
  next
    case (Suc r')
    with Cons.prems have "iter_rows trs ! (r' * C + c) = tc_lst (trs ! r') ! c"
      by (intro Cons.IH) simp_all
    moreover have "length (tc_lst tr) = C" using Cons.prems by simp
    ultimately show ?thesis using Suc by (simp add: nth_append)
  qed
qed

text \<open>
  C4. For a table of \<open>R\<close> rows with \<open>C\<close> cells each, \<^verbatim>\<open>iter_tcs\<close> yields \<open>R * C\<close> cells, the
  cell \<open>c\<close> of row \<open>r\<close> at place \<open>r * C + c\<close>. Whatever the rows hold, the cells yielded are
  the cell children of the rows one row after the other, every cell child once and none
  left out or merged with another; the sequence is a function of the table alone, so a
  second call on the same table yields it again.
\<close>

theorem iter_tcs_row_major:
  assumes "\<forall>tr \<in> set (tr_lst tbl). length (tc_lst tr) = C"
  shows "length (CT_Tbl_iter_tcs tbl) = length (tr_lst tbl) * C
    \<and> (\<forall>r c. r < length (tr_lst tbl) \<and> c < C
          \<longrightarrow> CT_Tbl_iter_tcs tbl ! (r * C + c) = tc_lst (tr_lst tbl ! r) ! c)
    \<and> CT_Tbl_iter_tcs tbl = concat (map tc_lst (tr_lst tbl))"
proof (intro conjI allI impI)
  show "length (CT_Tbl_iter_tcs tbl) = length (tr_lst tbl) * C"
    using assms by (simp add: CT_Tbl_iter_tcs_def iter_rows_length)
next
  fix r c assume "r < length (tr_lst tbl) \<and> c < C"
  then show "CT_Tbl_iter_tcs tbl ! (r * C + c) = tc_lst (tr_lst tbl ! r) ! c"
    using assms by (simp add: CT_Tbl_iter_tcs_def iter_rows_nth)
next
  show "CT_Tbl_iter_tcs tbl = concat (map tc_lst (tr_lst tbl))"
    by (simp add: CT_Tbl_iter_tcs_def iter_rows_concat)
qed

theorem iter_tcs_row_major_witness:
  "CT_Tbl_iter_tcs (Element 0 ''w:tbl'' []
     [Element 1 ''w:tblPr'' [] [], Element 2 ''w:tblGrid'' [] [],
      Element 3 ''w:tr'' [] [Element 4 ''w:tc'' [] [], Element 5 ''w:tc'' [(''a'', ''b'')] []],
      Element 6 ''w:tr'' [] [Element 7 ''w:tc'' [] [], Element 8 ''w:tc'' [] []]])
   = [Element 4 ''w:tc'' [] [], Element 5 ''w:tc'' [(''a'', ''b'')] [],
      Element 7 ''w:tc'' [] [], Element 8 ''w:tc'' [] []]
   \<and> length (CT_Tbl_iter_tcs (Element 0 ''w:tbl'' []
     [Element 1 ''w:tblPr'' [] [], Element 2 ''w:tblGrid'' [] [],
      Element 3 ''w:tr'' [] [Element 4 ''w:tc'' [] [], Element 5 ''w:tc'' [(''a'', ''b'')] []],
      Element 6 ''w:tr'' [] [Element 7 ''w:tc'' [] [], Element 8 ''w:tc'' [] []]])) = 2 * 2"
  using iter_tcs_row_major [of "Element 0 ''w:tbl'' []
     [Element 1 ''w:tblPr'' [] [], Element 2 ''w:tblGrid'' [] [],
      Element 3 ''w:tr'' [] [Element 4 ''w:tc'' [] [], Element 5 ''w:tc'' [(''a'', ''b'')] []],
      Element 6 ''w:tr'' [] [Element 7 ''w:tc'' [] [], Element 8 ''w:tc'' [] []]]" 2]
  by (simp add: tr_lst_def tc_lst_def findall_def)

section \<open>The index of a row\<close>

lemma index_of_nth:
  "distinct (map ident xs) \<Longrightarrow> i < length xs \<Longrightarrow> index_of (xs ! i) xs = Some i"
proof (induction xs arbitrary: i)
  case Nil
  then show ?case by simp
next
  case (Cons x xs)
  show ?case
  proof (cases i)
    case 0
    then show ?thesis by simp
  next
    case (Suc j)
    with Cons.prems have j: "j < length xs" and d: "distinct (map ident xs)"
      and nx: "ident x \<notin> ident ` set xs" by simp_all
    from j have "xs ! j \<in> set xs" by simp
    with nx have "ident x \<noteq> ident (xs ! j)" by force
    with Cons.IH[OF d j] Suc show ?thesis by simp
  qed
qed

lemma distinct_tr_lst:
  "distinct (map ident (children tbl)) \<Longrightarrow> distinct (map ident (tr_lst tbl))"
  by (simp add: tr_lst_def findall_def distinct_map_filter)

lemma remove_child_row:
  assumes "r \<in> set (tr_lst tbl)"
  shows "\<exists>tbl'. remove_child tbl r = Inr tbl'
           \<and> tr_lst tbl' = filter (\<lambda>d. ident d \<noteq> ident r) (tr_lst tbl)"
proof -
  from assms have "r \<in> set (children tbl)" by (simp add: tr_lst_def findall_def)
  then have "list_ex (\<lambda>d. ident d = ident r) (children tbl)"
    by (auto simp: list_ex_iff)
  then show ?thesis
    by (simp add: remove_child_def tr_lst_def findall_def set_children_def conj_commute)
qed

lemma filter_ident_nth:
  "distinct (map ident xs) \<Longrightarrow> j < length xs
   \<Longrightarrow> filter (\<lambda>d. ident d \<noteq> ident (xs ! j)) xs = take j xs @ drop (Suc j) xs"
proof (induction xs arbitrary: j)
  case Nil
  then show ?case by simp
next
  case (Cons x xs)
  show ?case
  proof (cases j)
    case 0
    from Cons.prems have "ident x \<notin> ident ` set xs" by simp
    then have "\<forall>d \<in> set xs. ident d \<noteq> ident x" by (metis imageI)
    then have "filter (\<lambda>d. ident d \<noteq> ident x) xs = xs"
      by (simp add: filter_id_conv)
    with 0 show ?thesis by simp
  next
    case (Suc k)
    with Cons.prems have k: "k < length xs" and d: "distinct (map ident xs)"
      and nx: "ident x \<notin> ident ` set xs" by simp_all
    from k have "xs ! k \<in> set xs" by simp
    with nx have "ident x \<noteq> ident (xs ! k)" by force
    with Cons.IH[OF d k] Suc show ?thesis by simp
  qed
qed

lemma index_of_after_remove:
  assumes d: "distinct (map ident xs)" and i: "i < length xs" and j: "j < length xs" and ij: "i \<noteq> j"
  shows "index_of (xs ! i) (filter (\<lambda>d. ident d \<noteq> ident (xs ! j)) xs)
         = Some (if j < i then i - 1 else i)"
proof -
  let ?ys = "take j xs @ drop (Suc j) xs"
  have f: "filter (\<lambda>d. ident d \<noteq> ident (xs ! j)) xs = ?ys"
    using d j by (rule filter_ident_nth)
  have "distinct (map ident (filter (\<lambda>d. ident d \<noteq> ident (xs ! j)) xs))"
    using d by (simp add: distinct_map_filter)
  then have dy: "distinct (map ident ?ys)" by (simp only: f)
  let ?k = "if j < i then i - 1 else i"
  have k: "?k < length ?ys" using i j ij by auto
  have "?ys ! ?k = xs ! i" using i j ij by (auto simp: nth_append min_def)
  with index_of_nth[OF dy k] f show ?thesis by simp
qed

text \<open>
  C8. In a table whose children are distinct nodes, \<^verbatim>\<open>tr_idx\<close> of the row at place \<open>i\<close>
  among the rows is \<open>i\<close>. It is looked up in the current table: with rows \<open>r0, r1, r2\<close>
  the index of \<open>r1\<close> is 1, and 0 once \<open>r0\<close> is removed; in general removing the row at
  place \<open>j\<close> lowers by one the index of every row after it and keeps the others.
\<close>

theorem tr_idx_positional:
  assumes "distinct (map ident (children tbl))"
  shows "(\<forall>i < length (tr_lst tbl). CT_Row_tr_idx (Some tbl) (tr_lst tbl ! i) = Inr i)
     \<and> (\<forall>r0 r1 r2. tr_lst tbl = [r0, r1, r2] \<longrightarrow>
           CT_Row_tr_idx (Some tbl) r1 = Inr 1
           \<and> (\<exists>tbl'. remove_child tbl r0 = Inr tbl' \<and> CT_Row_tr_idx (Some tbl') r1 = Inr 0))
     \<and> (\<forall>i j. i < length (tr_lst tbl) \<and> j < length (tr_lst tbl) \<and> i \<noteq> j \<longrightarrow>
           (\<exists>tbl'. remove_child tbl (tr_lst tbl ! j) = Inr tbl'
              \<and> CT_Row_tr_idx (Some tbl') (tr_lst tbl ! i) = Inr (if j < i then i - 1 else i)))"
proof (intro conjI allI impI)
  from assms have d: "distinct (map ident (tr_lst tbl))" by (rule distinct_tr_lst)
  fix i j assume ij: "i < length (tr_lst tbl) \<and> j < length (tr_lst tbl) \<and> i \<noteq> j"
  then have "tr_lst tbl ! j \<in> set (tr_lst tbl)" by simp
  from remove_child_row[OF this] obtain tbl' where
    t: "remove_child tbl (tr_lst tbl ! j) = Inr tbl'"
      "tr_lst tbl' = filter (\<lambda>d. ident d \<noteq> ident (tr_lst tbl ! j)) (tr_lst tbl)" by blast
  from d ij t(2) have "CT_Row_tr_idx (Some tbl') (tr_lst tbl ! i) = Inr (if j < i then i - 1 else i)"
    by (simp add: CT_Row_tr_idx_def index_of_after_remove)
  with t(1) show "\<exists>tbl'. remove_child tbl (tr_lst tbl ! j) = Inr tbl'
      \<and> CT_Row_tr_idx (Some tbl') (tr_lst tbl ! i) = Inr (if j < i then i - 1 else i)"
    by blast
next
  from assms have d: "distinct (map ident (tr_lst tbl))" by (rule distinct_tr_lst)
  fix i assume "i < length (tr_lst tbl)"
  with d show "CT_Row_tr_idx (Some tbl) (tr_lst tbl ! i) = Inr i"
    by (simp add: CT_Row_tr_idx_def index_of_nth)
next
  from assms have d: "distinct (map ident (tr_lst tbl))" by (rule distinct_tr_lst)
  fix r0 r1 r2 assume rows: "tr_lst tbl = [r0, r1, r2]"
  with d show "CT_Row_tr_idx (Some tbl) r1 = Inr 1"
    by (auto simp: CT_Row_tr_idx_def)
next
  from assms have d: "distinct (map ident (tr_lst tbl))" by (rule distinct_tr_lst)
  fix r0 r1 r2 assume rows: "tr_lst tbl = [r0, r1, r2]"
  then have "r0 \<in> set (tr_lst tbl)" by simp
  from remove_child_row[OF this] obtain tbl' where
    t: "remove_child tbl r0 = Inr tbl'"
      "tr_lst tbl' = filter (\<lambda>d. ident d \<noteq> ident r0) (tr_lst tbl)" by blast
  from d rows t(2) have "CT_Row_tr_idx (Some tbl') r1 = Inr 0"
    by (auto simp: CT_Row_tr_idx_def)
  with t(1) show "\<exists>tbl'. remove_child tbl r0 = Inr tbl' \<and> CT_Row_tr_idx (Some tbl') r1 = Inr 0"
    by blast
qed

theorem tr_idx_positional_witness:
  "CT_Row_tr_idx
     (Some (Element 0 ''w:tbl'' []
        [Element 1 ''w:tblPr'' [] [], Element 2 ''w:tblGrid'' [] [],
         Element 3 ''w:tr'' [] [], Element 4 ''w:tr'' [] [], Element 5 ''w:tr'' [] []]))
     (Element 4 ''w:tr'' [] []) = Inr 1
   \<and> remove_child (Element 0 ''w:tbl'' []
        [Element 1 ''w:tblPr'' [] [], Element 2 ''w:tblGrid'' [] [],
         Element 3 ''w:tr'' [] [], Element 4 ''w:tr'' [] [], Element 5 ''w:tr'' [] []])
        (Element 3 ''w:tr'' [] [])
     = Inr (Element 0 ''w:tbl'' []
        [Element 1 ''w:tblPr'' [] [], Element 2 ''w:tblGrid'' [] [],
         Element 4 ''w:tr'' [] [], Element 5 ''w:tr'' [] []])
   \<and> CT_Row_tr_idx
     (Some (Element 0 ''w:tbl'' []
        [Element 1 ''w:tblPr'' [] [], Element 2 ''w:tblGrid'' [] [],
         Element 4 ''w:tr'' [] [], Element 5 ''w:tr'' [] []]))
     (Element 4 ''w:tr'' [] []) = Inr 0"
  using tr_idx_positional [of "Element 0 ''w:tbl'' []
        [Element 1 ''w:tblPr'' [] [], Element 2 ''w:tblGrid'' [] [],
         Element 3 ''w:tr'' [] [], Element 4 ''w:tr'' [] [], Element 5 ''w:tr'' [] []]"]
  by (simp add: tr_lst_def findall_def remove_child_def set_children_def CT_Row_tr_idx_def)

section \<open>Finding and updating children\<close>

lemma child_index_None: "child_index t cs = None \<longleftrightarrow> find (\<lambda>c. tag c = t) cs = None"
  by (induction cs) auto

lemma child_index_Some:
  "child_index t cs = Some i \<Longrightarrow> i < length cs \<and> find (\<lambda>c. tag c = t) cs = Some (cs ! i)"
  by (induction cs arbitrary: i) (auto split: if_splits)

lemma child_index_update:
  "child_index t cs = Some i \<Longrightarrow> tag c = t \<Longrightarrow> child_index t (cs[i := c]) = Some i"
  by (induction cs arbitrary: i) (auto split: if_splits)

lemma find_child_index:
  "find_child e t = Some c \<Longrightarrow> \<exists>i. child_index t (children e) = Some i \<and> children e ! i = c"
  unfolding find_child_def
  by (cases "child_index t (children e)") (auto simp: child_index_None dest: child_index_Some)

lemma update_child_found:
  assumes "find_child e t = Some c" and "f c = Inr c'" and "tag c' = t"
  shows "\<exists>e'. update_child t f e = Inr e' \<and> find_child e' t = Some c'"
proof -
  from assms(1) obtain i where i: "child_index t (children e) = Some i" "children e ! i = c"
    by (auto dest: find_child_index)
  have "child_index t ((children e)[i := c']) = Some i"
    using i(1) assms(3) by (rule child_index_update)
  from child_index_Some[OF this] i assms(2) show ?thesis
    by (simp add: update_child_def find_child_def set_children_def)
qed

lemma find_child_insert_element_before:
  "find_child e t = None \<Longrightarrow> tag c = t \<Longrightarrow> find_child (insert_element_before c ts e) t = Some c"
proof -
  assume n: "find_child e t = None" and t: "tag c = t"
  have a: "find (\<lambda>c. tag c = t) (xs @ c # ys) = Some c"
    if "find (\<lambda>c. tag c = t) xs = None" for xs ys
    using that t by (induction xs) (auto split: if_splits)
  from n have "find (\<lambda>c. tag c = t) (take i (children e)) = None" for i
    by (auto simp: find_child_def find_None_iff dest: in_set_takeD)
  with n a show ?thesis
    by (auto simp: insert_element_before_def insert_at_def append_child_def set_children_def
        find_child_def split: option.splits)
qed

lemma get_or_add_find:
  "\<exists>c. find_child (get_or_add n t ts e) t = Some c
       \<and> (case find_child e t of None \<Rightarrow> c = OxmlElement n t | Some d \<Rightarrow> c = d)"
  by (auto simp: get_or_add_def add_child_def find_child_insert_element_before OxmlElement_def
      split: option.splits)

lemma tag_set_attr [simp]: "tag (set_attr e k v) = tag e"
  by (simp add: set_attr_def set_attrib_def)

lemma get_set_attr [simp]: "get_attr (set_attr e k v) k' = (if k' = k then Some v else get_attr e k')"
  by (simp add: set_attr_def set_attrib_def get_attr_def update_conv')

section \<open>The layout of a table\<close>

lemma autofit_iff:
  "CT_TblPr_autofit e = False \<longleftrightarrow>
     (\<exists>l. find_child e ''w:tblLayout'' = Some l \<and> get_attr l ''w:type'' = Some ''fixed'')"
  by (auto simp: CT_TblPr_autofit_def CT_TblLayoutType_type_def OptionalAttribute_get_def
      split: option.splits)

lemma autofit_set_ok:
  assumes "(if b then ''autofit'' else ''fixed'') \<in> set layout_types"
  shows "\<exists>e' l. CT_TblPr_autofit_set layout_types n b e = Inr e'
           \<and> find_child e' ''w:tblLayout'' = Some l
           \<and> get_attr l ''w:type'' = Some (if b then ''autofit'' else ''fixed'')
           \<and> CT_TblPr_autofit e' = b"
proof -
  let ?v = "if b then ''autofit'' else ''fixed''"
  let ?e1 = "get_or_add n ''w:tblLayout'' tblLayout_successors e"
  obtain c where c: "find_child ?e1 ''w:tblLayout'' = Some c"
    using get_or_add_find by blast
  then have tc: "tag c = ''w:tblLayout''" by (auto simp: find_child_def find_Some_iff)
  let ?c' = "set_attr c ''w:type'' ?v"
  have f: "CT_TblLayoutType_type_set layout_types ?v c = Inr ?c'"
    using assms by (simp add: CT_TblLayoutType_type_set_def OptionalAttribute_set_def enum_to_xml_def)
  have "tag ?c' = ''w:tblLayout''" using tc by simp
  from update_child_found[of ?e1 "''w:tblLayout''" c
      "CT_TblLayoutType_type_set layout_types ?v" ?c', OF c f this] obtain e' where
    e': "update_child ''w:tblLayout'' (CT_TblLayoutType_type_set layout_types ?v) ?e1 = Inr e'"
      "find_child e' ''w:tblLayout'' = Some ?c'" by blast
  have "CT_TblPr_autofit e' = b"
    using e'(2) by (simp add: CT_TblPr_autofit_def CT_TblLayoutType_type_def OptionalAttribute_get_def)
  with e' show ?thesis
    unfolding CT_TblPr_autofit_set_def by (intro exI[of _ e'] exI[of _ ?c']) simp
qed

text \<open>
  C10. \<^verbatim>\<open>autofit\<close> reads as \<^verbatim>\<open>False\<close> exactly when there is a \<^verbatim>\<open>w:tblLayout\<close> child whose
  \<^verbatim>\<open>w:type\<close> attribute is the text \<^verbatim>\<open>fixed\<close>, and as \<^verbatim>\<open>True\<close> otherwise. Setting it to \<open>b\<close>
  stores the text \<^verbatim>\<open>autofit\<close> for \<^verbatim>\<open>True\<close> and \<^verbatim>\<open>fixed\<close> for \<^verbatim>\<open>False\<close> in the first
  \<^verbatim>\<open>w:tblLayout\<close> child, and a read after it returns \<open>b\<close>. The text stored has to be among
  the values that \<^verbatim>\<open>ST_TblLayoutType\<close> admits, here \<open>layout_types\<close>.
\<close>

theorem autofit_roundtrip:
  "(CT_TblPr_autofit e = False \<longleftrightarrow>
      (\<exists>l. find_child e ''w:tblLayout'' = Some l \<and> get_attr l ''w:type'' = Some ''fixed''))
   \<and> ((if b then ''autofit'' else ''fixed'') \<in> set layout_types \<longrightarrow>
        (\<exists>e' l. CT_TblPr_autofit_set layout_types n b e = Inr e'
           \<and> find_child e' ''w:tblLayout'' = Some l
           \<and> get_attr l ''w:type'' = Some (if b then ''autofit'' else ''fixed'')
           \<and> CT_TblPr_autofit e' = b))"
  using autofit_iff autofit_set_ok by blast

theorem autofit_roundtrip_witness:
  "CT_TblPr_autofit_set [''fixed'', ''autofit''] 9 True
      (Element 1 ''w:tblPr'' [] [Element 2 ''w:tblW'' [(''w:type'', ''auto''), (''w:w'', ''0'')] []])
     = Inr (Element 1 ''w:tblPr'' []
         [Element 2 ''w:tblW'' [(''w:type'', ''auto''), (''w:w'', ''0'')] [],
          Element 9 ''w:tblLayout'' [(''w:type'', ''autofit'')] []])
   \<and> CT_TblPr_autofit (Element 1 ''w:tblPr'' []
         [Element 2 ''w:tblW'' [(''w:type'', ''auto''), (''w:w'', ''0'')] [],
          Element 9 ''w:tblLayout'' [(''w:type'', ''autofit'')] []]) = True
   \<and> CT_TblPr_autofit_set [''fixed'', ''autofit''] 9 False
      (Element 1 ''w:tblPr'' [] [Element 3 ''w:tblLayout'' [(''w:type'', ''autofit'')] []])
     = Inr (Element 1 ''w:tblPr'' [] [Element 3 ''w:tblLayout'' [(''w:type'', ''fixed'')] []])
   \<and> CT_TblPr_autofit
       (Element 1 ''w:tblPr'' [] [Element 3 ''w:tblLayout'' [(''w:type'', ''fixed'')] []]) = False"
  using autofit_roundtrip [of
      "Element 1 ''w:tblPr'' [] [Element 2 ''w:tblW'' [(''w:type'', ''auto''), (''w:w'', ''0'')] []]"
      True "[''fixed'', ''autofit'']" 9]
    autofit_roundtrip [of
      "Element 1 ''w:tblPr'' [] [Element 3 ''w:tblLayout'' [(''w:type'', ''autofit'')] []]"
      False "[''fixed'', ''autofit'']" 9]
  by (simp add: CT_TblPr_autofit_set_def CT_TblPr_autofit_def get_or_add_def add_child_def
      find_child_def insert_element_before_def tblLayout_successors_def append_child_def
      insert_at_def set_children_def update_child_def CT_TblLayoutType_type_set_def
      OptionalAttribute_set_def enum_to_xml_def set_attr_def set_attrib_def OxmlElement_def
      CT_TblLayoutType_type_def OptionalAttribute_get_def get_attr_def)

section \<open>Decimal text and document units\<close>

lemma digit_val_digit_char: "d < 10 \<Longrightarrow> digit_val (digit_char d) = Some d"
proof -
  assume "d < 10"
  then have "d \<in> {0, 1, 2, 3, 4, 5, 6, 7, 8, 9}" by auto
  then show ?thesis by (auto simp: digit_val_def digit_char_def)
qed

lemma digit_char_not_sign: "d < 10 \<Longrightarrow> digit_char d \<noteq> CHR ''-'' \<and> digit_char d \<noteq> CHR ''+''"
proof -
  assume "d < 10"
  then have "d \<in> {0, 1, 2, 3, 4, 5, 6, 7, 8, 9}" by auto
  then show ?thesis by (auto simp: digit_char_def)
qed

lemma read_digits_snoc:
  "read_digits acc (xs @ [c]) =
     (case read_digits acc xs of
        None \<Rightarrow> None
      | Some m \<Rightarrow> (case digit_val c of None \<Rightarrow> None | Some d \<Rightarrow> Some (10 * m + d)))"
  by (induction xs arbitrary: acc) (auto split: option.splits)

lemma read_digits_str_nat: "read_digits 0 (str_nat n) = Some n"
proof (induction n rule: str_nat.induct)
  case (1 n)
  show ?case
  proof (cases "n < 10")
    case True
    then show ?thesis by (simp add: str_nat.simps[of n] digit_val_digit_char)
  next
    case False
    with 1 have "read_digits 0 (str_nat (n div 10)) = Some (n div 10)" by simp
    with False show ?thesis
      by (simp add: str_nat.simps[of n] read_digits_snoc digit_val_digit_char)
  qed
qed

lemma str_nat_head: "\<exists>d cs. d < 10 \<and> str_nat n = digit_char d # cs"
proof (induction n rule: str_nat.induct)
  case (1 n)
  show ?case
  proof (cases "n < 10")
    case True
    then show ?thesis by (auto simp: str_nat.simps[of n])
  next
    case False
    with 1 obtain d cs where "d < 10" "str_nat (n div 10) = digit_char d # cs" by auto
    with False show ?thesis by (auto simp: str_nat.simps[of n])
  qed
qed

lemma py_int_str_nat: "py_int (str_nat n) = Inr (int n)"
proof -
  obtain d cs where d: "d < 10" and s: "str_nat n = digit_char d # cs"
    using str_nat_head by blast
  have "read_nat (str_nat n) = Some n"
    using s by (simp add: read_nat_def read_digits_str_nat[symmetric])
  with d s digit_char_not_sign[OF d] show ?thesis
    by (simp add: py_int_def)
qed

lemma py_int_str_int: "py_int (str_int i) = Inr i"
proof (cases "i < 0")
  case True
  obtain d cs where d: "d < 10" and s: "str_nat (nat (- i)) = digit_char d # cs"
    using str_nat_head by blast
  have "read_nat (str_nat (nat (- i))) = Some (nat (- i))"
    using s by (simp add: read_nat_def read_digits_str_nat[symmetric])
  with True show ?thesis by (simp add: py_int_def str_int_def)
next
  case False
  then show ?thesis by (simp add: str_int_def py_int_str_nat)
qed

lemma twips_Twips: "twips (Twips t) = t"
  by (simp add: twips_def Twips_def EMUS_PER_TWIP_def)

lemma Twips_twips_dvd: "635 dvd W \<Longrightarrow> Twips (twips W) = W"
  by (auto simp: twips_Twips[unfolded Twips_def EMUS_PER_TWIP_def] Twips_def EMUS_PER_TWIP_def
      elim!: dvdE) (simp add: twips_def EMUS_PER_TWIP_def)


section \<open>Writing a width\<close>

lemma width_set_in_range:
  assumes "- 2147483648 \<le> twips W" and "twips W \<le> 2147483647"
  shows "CT_TblWidth_width_set W e
           = Inr (set_attr (set_attr e ''w:type'' ''dxa'') ''w:w'' (str_int (twips W)))"
  using assms
  by (simp add: CT_TblWidth_width_set_def RequiredAttribute_set_def enum_to_xml_def
      ST_TblWidth_values_def XsdInt_to_xml_def Emu_def)

lemma width_set_out_of_range:
  assumes "twips W < - 2147483648 \<or> 2147483647 < twips W"
  shows "CT_TblWidth_width_set W e = Inl ValueError"
  using assms
  by (auto simp: CT_TblWidth_width_set_def RequiredAttribute_set_def enum_to_xml_def
      ST_TblWidth_values_def XsdInt_to_xml_def Emu_def)

lemma width_after_set:
  "CT_TblWidth_width (set_attr (set_attr e ''w:type'' ''dxa'') ''w:w'' (str_int t)) = Inr (Some (Twips t))
   \<and> CT_TblWidth_type (set_attr (set_attr e ''w:type'' ''dxa'') ''w:w'' (str_int t)) = Inr ''dxa''"
  by (simp add: CT_TblWidth_width_def CT_TblWidth_type_def CT_TblWidth_w_def
      RequiredAttribute_get_def XsdInt_from_xml_def py_int_str_int)

text \<open>
  C2 as it is stated fails for a length that is not a whole number of document units.
  One centimetre is 360000 EMU; the setter stores the nearest number of twentieths of a
  point, 567, and the read returns 360045 EMU.
\<close>

theorem width_roundtrip_counterexample:
  "CT_TblWidth_width_set 360000 (Element 0 ''w:tcW'' [] [])
     = Inr (Element 0 ''w:tcW'' [(''w:type'', ''dxa''), (''w:w'', ''567'')] [])
   \<and> CT_TblWidth_width (Element 0 ''w:tcW'' [(''w:type'', ''dxa''), (''w:w'', ''567'')] [])
     = Inr (Some 360045)
   \<and> CT_TblWidth_width (Element 0 ''w:tcW'' [(''w:type'', ''dxa''), (''w:w'', ''567'')] [])
     \<noteq> Inr (Some 360000)"
  by (simp add: CT_TblWidth_width_set_def RequiredAttribute_set_def enum_to_xml_def
      ST_TblWidth_values_def XsdInt_to_xml_def Emu_def twips_def EMUS_PER_TWIP_def
      str_int_def str_nat.simps digit_char_def set_attr_def set_attrib_def
      CT_TblWidth_width_def CT_TblWidth_type_def CT_TblWidth_w_def RequiredAttribute_get_def
      get_attr_def XsdInt_from_xml_def py_int_def read_nat_def digit_val_def Twips_def)


lemma Twips_eq_iff: "Twips (twips W) = W \<longleftrightarrow> 635 dvd W"
proof
  assume "Twips (twips W) = W"
  then have "W = twips W * 635" by (simp add: Twips_def EMUS_PER_TWIP_def)
  then show "635 dvd W" by (metis dvd_triv_right)
next
  assume "635 dvd W"
  then show "Twips (twips W) = W" by (rule Twips_twips_dvd)
qed

lemma TblWidth_roundtrip:
  assumes "- 2147483648 \<le> twips W" and "twips W \<le> 2147483647"
  shows "\<exists>e'. CT_TblWidth_width_set W e = Inr e' \<and> tag e' = tag e
           \<and> CT_TblWidth_type e' = Inr ''dxa''
           \<and> CT_TblWidth_width e' = Inr (Some (Twips (twips W)))"
  using width_set_in_range[OF assms, of e] width_after_set[of e "twips W"] by simp

lemma TcPr_roundtrip:
  assumes "- 2147483648 \<le> twips W" and "twips W \<le> 2147483647"
  shows "\<exists>pr' c. CT_TcPr_width_set n W pr = Inr pr' \<and> find_child pr' ''w:tcW'' = Some c
           \<and> CT_TblWidth_type c = Inr ''dxa''
           \<and> CT_TcPr_width pr' = Inr (Some (Twips (twips W)))"
proof -
  let ?pr1 = "get_or_add_tcW n pr"
  obtain c where c: "find_child ?pr1 ''w:tcW'' = Some c"
    unfolding get_or_add_tcW_def using get_or_add_find by blast
  then have tc: "tag c = ''w:tcW''" by (auto simp: find_child_def find_Some_iff)
  from TblWidth_roundtrip[OF assms, of c] obtain c' where
    c': "CT_TblWidth_width_set W c = Inr c'" "tag c' = tag c" "CT_TblWidth_type c' = Inr ''dxa''"
      "CT_TblWidth_width c' = Inr (Some (Twips (twips W)))" by blast
  from c'(2) tc have "tag c' = ''w:tcW''" by simp
  from update_child_found[of ?pr1 "''w:tcW''" c "CT_TblWidth_width_set W" c', OF c c'(1) this]
  obtain pr' where pr': "update_child ''w:tcW'' (CT_TblWidth_width_set W) ?pr1 = Inr pr'"
    "find_child pr' ''w:tcW'' = Some c'" by blast
  have "CT_TcPr_width pr' = Inr (Some (Twips (twips W)))"
    using pr'(2) c'(4) by (simp add: CT_TcPr_width_def)
  with pr' c'(3) show ?thesis
    unfolding CT_TcPr_width_set_def by (intro exI[of _ pr'] exI[of _ c']) simp
qed

text \<open>
  C2, amended. For a length \<open>W\<close> whose nearest number of document units fits a 32-bit
  signed integer, writing \<open>W\<close> through the width setter succeeds and leaves the type
  \<^verbatim>\<open>dxa\<close>; reading the width back returns \<open>W\<close> rounded to the nearest document unit, which
  is \<open>W\<close> itself exactly when \<open>W\<close> is a multiple of 635 EMU. The same holds through the
  width of the cell properties, which adds the \<^verbatim>\<open>w:tcW\<close> child when it is absent.
\<close>

theorem width_roundtrip_nearest_twip:
  "- 2147483648 \<le> twips W \<and> twips W \<le> 2147483647 \<longrightarrow>
     (\<exists>e'. CT_TblWidth_width_set W e = Inr e'
        \<and> CT_TblWidth_type e' = Inr ''dxa''
        \<and> CT_TblWidth_width e' = Inr (Some (Twips (twips W)))
        \<and> (CT_TblWidth_width e' = Inr (Some W) \<longleftrightarrow> 635 dvd W))
     \<and> (\<exists>pr' c. CT_TcPr_width_set n W pr = Inr pr'
        \<and> find_child pr' ''w:tcW'' = Some c
        \<and> CT_TblWidth_type c = Inr ''dxa''
        \<and> CT_TcPr_width pr' = Inr (Some (Twips (twips W)))
        \<and> (CT_TcPr_width pr' = Inr (Some W) \<longleftrightarrow> 635 dvd W))"
proof (intro impI conjI)
  assume r: "- 2147483648 \<le> twips W \<and> twips W \<le> 2147483647"
  then have r1: "- 2147483648 \<le> twips W" and r2: "twips W \<le> 2147483647" by simp_all
  from TblWidth_roundtrip[OF r1 r2, of e]
  show "\<exists>e'. CT_TblWidth_width_set W e = Inr e'
        \<and> CT_TblWidth_type e' = Inr ''dxa''
        \<and> CT_TblWidth_width e' = Inr (Some (Twips (twips W)))
        \<and> (CT_TblWidth_width e' = Inr (Some W) \<longleftrightarrow> 635 dvd W)"
    by (auto simp: Twips_eq_iff)
  from TcPr_roundtrip[OF r1 r2, of n pr]
  show "\<exists>pr' c. CT_TcPr_width_set n W pr = Inr pr'
        \<and> find_child pr' ''w:tcW'' = Some c
        \<and> CT_TblWidth_type c = Inr ''dxa''
        \<and> CT_TcPr_width pr' = Inr (Some (Twips (twips W)))
        \<and> (CT_TcPr_width pr' = Inr (Some W) \<longleftrightarrow> 635 dvd W)"
    by (auto simp: Twips_eq_iff)
qed

theorem width_roundtrip_nearest_twip_witness:
  "CT_TblWidth_width_set 914400 (Element 0 ''w:tcW'' [(''w:w'', ''5000''), (''w:type'', ''pct'')] [])
     = Inr (Element 0 ''w:tcW'' [(''w:w'', ''1440''), (''w:type'', ''dxa'')] [])
   \<and> CT_TblWidth_width (Element 0 ''w:tcW'' [(''w:w'', ''1440''), (''w:type'', ''dxa'')] [])
     = Inr (Some 914400)
   \<and> CT_TcPr_width_set 5 914400 (Element 1 ''w:tcPr'' [] [Element 2 ''w:vMerge'' [] []])
     = Inr (Element 1 ''w:tcPr'' []
         [Element 5 ''w:tcW'' [(''w:type'', ''dxa''), (''w:w'', ''1440'')] [],
          Element 2 ''w:vMerge'' [] []])
   \<and> CT_TcPr_width (Element 1 ''w:tcPr'' []
         [Element 5 ''w:tcW'' [(''w:type'', ''dxa''), (''w:w'', ''1440'')] [],
          Element 2 ''w:vMerge'' [] []])
     = Inr (Some 914400)"
  using width_roundtrip_nearest_twip [of 914400
      "Element 0 ''w:tcW'' [(''w:w'', ''5000''), (''w:type'', ''pct'')] []" 5
      "Element 1 ''w:tcPr'' [] [Element 2 ''w:vMerge'' [] []]"]
  by (simp add: CT_TblWidth_width_set_def RequiredAttribute_set_def enum_to_xml_def
      ST_TblWidth_values_def XsdInt_to_xml_def Emu_def twips_def EMUS_PER_TWIP_def
      str_int_def str_nat.simps digit_char_def set_attr_def set_attrib_def
      CT_TblWidth_width_def CT_TblWidth_type_def CT_TblWidth_w_def RequiredAttribute_get_def
      get_attr_def XsdInt_from_xml_def py_int_def read_nat_def digit_val_def Twips_def
      CT_TcPr_width_set_def CT_TcPr_width_def get_or_add_tcW_def get_or_add_def add_child_def
      find_child_def insert_element_before_def tag_seq_def insert_at_def append_child_def
      set_children_def update_child_def OxmlElement_def)

section \<open>The order of the children of cell properties\<close>

lemma rank_in_less: "s \<in> set xs \<longleftrightarrow> rank_in xs s < length xs"
  by (induction xs) auto

lemma nth_rank_in: "s \<in> set xs \<Longrightarrow> xs ! rank_in xs s = s"
  by (induction xs) auto

lemma rank_in_inj: "s \<in> set xs \<Longrightarrow> rank_in xs s = rank_in xs s' \<Longrightarrow> s = s'"
  by (metis nth_rank_in rank_in_less)

lemma rank_in_drop:
  "distinct xs \<Longrightarrow> s \<in> set (drop m xs) \<Longrightarrow> rank_in xs s = m + rank_in (drop m xs) s"
proof (induction xs arbitrary: m)
  case Nil
  then show ?case by simp
next
  case (Cons x xs)
  show ?case
  proof (cases m)
    case 0
    then show ?thesis by simp
  next
    case (Suc k)
    with Cons.prems have s: "s \<in> set (drop k xs)" and d: "distinct xs" and x: "x \<notin> set xs"
      by simp_all
    from s have "s \<in> set xs" by (rule in_set_dropD)
    with x have "x \<noteq> s" by blast
    with Cons.IH[OF d s] Suc show ?thesis by simp
  qed
qed

lemma in_drop_iff:
  "distinct xs \<Longrightarrow> s \<in> set xs \<Longrightarrow> s \<in> set (drop m xs) \<longleftrightarrow> m \<le> rank_in xs s"
proof (induction xs arbitrary: m)
  case Nil
  then show ?case by simp
next
  case (Cons x xs)
  show ?case
  proof (cases m)
    case 0
    with Cons.prems show ?thesis by simp
  next
    case (Suc k)
    show ?thesis
    proof (cases "x = s")
      case True
      with Cons.prems have "s \<notin> set xs" by simp
      then have "s \<notin> set (drop k xs)" by (blast dest: in_set_dropD)
      with True Suc show ?thesis by simp
    next
      case False
      with Cons.prems have "s \<in> set xs" "distinct xs" by simp_all
      with Cons.IH[of k] False Suc show ?thesis by simp
    qed
  qed
qed

lemma child_index_first:
  "child_index t cs = Some i \<Longrightarrow> i < length cs \<and> tag (cs ! i) = t \<and> (\<forall>j<i. tag (cs ! j) \<noteq> t)"
proof (induction cs arbitrary: i)
  case Nil
  then show ?case by simp
next
  case (Cons c cs)
  show ?case
  proof (cases "tag c = t")
    case True
    with Cons.prems show ?thesis by simp
  next
    case False
    with Cons.prems obtain k where k: "child_index t cs = Some k" "i = Suc k" by auto
    from Cons.IH[OF k(1)] False k(2) show ?thesis
      by (auto simp: nth_Cons split: nat.splits)
  qed
qed

lemma child_index_absent: "child_index t cs = None \<Longrightarrow> \<forall>c\<in>set cs. tag c \<noteq> t"
  by (induction cs) (auto split: if_splits)

lemma first_child_found_in_None:
  "first_child_found_in ts cs = None \<Longrightarrow> \<forall>c\<in>set cs. tag c \<notin> set ts"
  by (induction ts) (auto split: option.splits dest: child_index_absent)

lemma first_child_found_in_Some:
  "first_child_found_in ts cs = Some i \<Longrightarrow>
     i < length cs \<and> tag (cs ! i) \<in> set ts \<and> (\<forall>j<i. tag (cs ! j) \<noteq> tag (cs ! i))
     \<and> (\<forall>c\<in>set cs. tag c \<in> set ts \<longrightarrow> rank_in ts (tag (cs ! i)) \<le> rank_in ts (tag c))"
proof (induction ts)
  case Nil
  then show ?case by simp
next
  case (Cons t ts)
  show ?case
  proof (cases "child_index t cs")
    case (Some k)
    with Cons.prems have "k = i" by simp
    with child_index_first[OF Some] show ?thesis by simp
  next
    case None
    with Cons.prems have f: "first_child_found_in ts cs = Some i" by simp
    from child_index_absent[OF None] have nt: "\<forall>c\<in>set cs. tag c \<noteq> t" .
    from Cons.IH[OF f] have ih: "i < length cs" "tag (cs ! i) \<in> set ts"
      "\<forall>j<i. tag (cs ! j) \<noteq> tag (cs ! i)"
      "\<forall>c\<in>set cs. tag c \<in> set ts \<longrightarrow> rank_in ts (tag (cs ! i)) \<le> rank_in ts (tag c)"
      by simp_all
    from ih(1) have "cs ! i \<in> set cs" by simp
    with nt have "tag (cs ! i) \<noteq> t" by blast
    with ih nt show ?thesis by auto
  qed
qed


lemma distinct_tag_seq: "distinct tag_seq"
  by (simp add: tag_seq_def)

lemma schema_order_nth:
  assumes "schema_order cs" and "i \<le> j" and "j < length cs"
  shows "rank_in tag_seq (tag (cs ! i)) \<le> rank_in tag_seq (tag (cs ! j))"
proof -
  from assms(1) have "sorted (map (\<lambda>c. rank_in tag_seq (tag c)) cs)"
    by (simp add: schema_order_def)
  from sorted_nth_mono[OF this, of i j] assms(2,3) show ?thesis by simp
qed

lemma schema_order_tag: "schema_order cs \<Longrightarrow> d \<in> set cs \<Longrightarrow> tag d \<in> set tag_seq"
  by (simp add: schema_order_def list_all_iff)

lemma insert_slot:
  assumes so: "schema_order (children e)"
  shows "\<exists>pre post. children e = pre @ post
           \<and> children (insert_element_before c (drop (Suc k) tag_seq) e) = pre @ [c] @ post
           \<and> (\<forall>d\<in>set pre. rank_in tag_seq (tag d) \<le> k)
           \<and> (\<forall>d\<in>set post. k < rank_in tag_seq (tag d))"
proof (cases "first_child_found_in (drop (Suc k) tag_seq) (children e)")
  case None
  have "rank_in tag_seq (tag d) \<le> k" if d: "d \<in> set (children e)" for d
  proof -
    from first_child_found_in_None[OF None] d
    have "tag d \<notin> set (drop (Suc k) tag_seq)" by blast
    with in_drop_iff[OF distinct_tag_seq schema_order_tag[OF so d], of "Suc k"]
    show ?thesis by simp
  qed
  with None show ?thesis
    by (intro exI[of _ "children e"] exI[of _ "[]"])
      (simp add: insert_element_before_def append_child_def set_children_def)
next
  case (Some i)
  let ?cs = "children e"
  let ?ts = "drop (Suc k) tag_seq"
  let ?s = "tag (?cs ! i)"
  from first_child_found_in_Some[OF Some]
  have i: "i < length ?cs" and s: "?s \<in> set ?ts"
    and first: "\<forall>j<i. tag (?cs ! j) \<noteq> ?s"
    and least: "\<forall>c\<in>set ?cs. tag c \<in> set ?ts \<longrightarrow> rank_in ?ts ?s \<le> rank_in ?ts (tag c)"
    by simp_all
  from s have s_seq: "?s \<in> set tag_seq" by (rule in_set_dropD)
  from s in_drop_iff[OF distinct_tag_seq s_seq, of "Suc k"]
  have ks: "k < rank_in tag_seq ?s" by simp
  have post: "k < rank_in tag_seq (tag d)" if d: "d \<in> set (drop i ?cs)" for d
  proof -
    from d obtain j where j: "j < length ?cs - i" "d = ?cs ! (i + j)"
      by (auto simp: in_set_conv_nth)
    from schema_order_nth[OF so, of i "i + j"] j
    have "rank_in tag_seq ?s \<le> rank_in tag_seq (tag d)" by simp
    with ks show ?thesis by simp
  qed
  have pre: "rank_in tag_seq (tag d) \<le> k" if d: "d \<in> set (take i ?cs)" for d
  proof (rule ccontr)
    assume "\<not> rank_in tag_seq (tag d) \<le> k"
    then have kd: "Suc k \<le> rank_in tag_seq (tag d)" by simp
    from d i obtain j where j: "j < i" "d = ?cs ! j"
      by (auto simp: in_set_conv_nth)
    from j i have dcs: "d \<in> set ?cs" by simp
    from in_drop_iff[OF distinct_tag_seq schema_order_tag[OF so dcs], of "Suc k"] kd
    have dts: "tag d \<in> set ?ts" by simp
    with least dcs have "rank_in ?ts ?s \<le> rank_in ?ts (tag d)" by blast
    with rank_in_drop[OF distinct_tag_seq s] rank_in_drop[OF distinct_tag_seq dts]
    have "rank_in tag_seq ?s \<le> rank_in tag_seq (tag d)" by simp
    moreover from schema_order_nth[OF so, of j i] j i
    have "rank_in tag_seq (tag d) \<le> rank_in tag_seq ?s" by simp
    ultimately have "rank_in tag_seq ?s = rank_in tag_seq (tag d)" by simp
    from rank_in_inj[OF s_seq this] have "tag (?cs ! j) = ?s" using j by simp
    with first j(1) show False by blast
  qed
  from Some pre post show ?thesis
    by (intro exI[of _ "take i ?cs"] exI[of _ "drop i ?cs"])
      (simp add: insert_element_before_def insert_at_def set_children_def)
qed

lemma schema_order_insert:
  assumes "schema_order (pre @ post)" and "tag c \<in> set tag_seq"
    and "\<forall>d\<in>set pre. rank_in tag_seq (tag d) \<le> rank_in tag_seq (tag c)"
    and "\<forall>d\<in>set post. rank_in tag_seq (tag c) < rank_in tag_seq (tag d)"
  shows "schema_order (pre @ [c] @ post)"
  using assms by (auto simp: schema_order_def sorted_append)


lemma call_tag_in_seq: "call_tag call \<in> set tag_seq"
  by (cases call) (simp_all add: tag_seq_def)

lemma run_call_eq:
  "run_call (n, call) e =
     get_or_add n (call_tag call) (drop (Suc (rank_in tag_seq (call_tag call))) tag_seq) e"
  by (cases call)
    (simp_all add: get_or_add_tcW_def get_or_add_gridSpan_def get_or_add_vMerge_def tag_seq_def)

lemma run_call_present:
  "find_child e (call_tag call) \<noteq> None \<Longrightarrow> run_call (n, call) e = e"
  by (auto simp: run_call_eq get_or_add_def)

lemma run_call_absent:
  assumes so: "schema_order (children e)" and absent: "find_child e (call_tag call) = None"
  shows "\<exists>pre post. children e = pre @ post
           \<and> children (run_call (n, call) e) = pre @ [OxmlElement n (call_tag call)] @ post
           \<and> (\<forall>d\<in>set pre. rank_in tag_seq (tag d) < rank_in tag_seq (call_tag call))
           \<and> (\<forall>d\<in>set post. rank_in tag_seq (call_tag call) < rank_in tag_seq (tag d))"
proof -
  let ?t = "call_tag call"
  let ?k = "rank_in tag_seq ?t"
  from insert_slot[OF so, of "OxmlElement n ?t" ?k] obtain pre post where
    split: "children e = pre @ post"
    and ins: "children (insert_element_before (OxmlElement n ?t) (drop (Suc ?k) tag_seq) e)
                = pre @ [OxmlElement n ?t] @ post"
    and pre: "\<forall>d\<in>set pre. rank_in tag_seq (tag d) \<le> ?k"
    and post: "\<forall>d\<in>set post. ?k < rank_in tag_seq (tag d)"
    by blast
  have "rank_in tag_seq (tag d) < ?k" if d: "d \<in> set pre" for d
  proof -
    from d split have dc: "d \<in> set (children e)" by simp
    with absent have "tag d \<noteq> ?t" by (auto simp: find_child_def find_None_iff)
    with rank_in_inj[OF call_tag_in_seq, of call "tag d"]
    have "rank_in tag_seq (tag d) \<noteq> ?k" by metis
    with pre d show ?thesis by (simp add: order_less_le)
  qed
  with split ins post absent show ?thesis
    by (intro exI[of _ pre] exI[of _ post]) (simp add: run_call_eq get_or_add_def add_child_def)
qed

lemma run_call_schema_order:
  assumes so: "schema_order (children e)"
  shows "schema_order (children (run_call (n, call) e))"
proof (cases "find_child e (call_tag call)")
  case None
  from run_call_absent[OF so None, of n] obtain pre post where
    p: "children e = pre @ post"
      "children (run_call (n, call) e) = pre @ [OxmlElement n (call_tag call)] @ post"
      "\<forall>d\<in>set pre. rank_in tag_seq (tag d) < rank_in tag_seq (call_tag call)"
      "\<forall>d\<in>set post. rank_in tag_seq (call_tag call) < rank_in tag_seq (tag d)"
    by blast
  have "schema_order (pre @ [OxmlElement n (call_tag call)] @ post)"
  proof (rule schema_order_insert)
    show "schema_order (pre @ post)" using so p(1) by simp
    show "tag (OxmlElement n (call_tag call)) \<in> set tag_seq"
      by (simp add: OxmlElement_def call_tag_in_seq)
    show "\<forall>d\<in>set pre. rank_in tag_seq (tag d) \<le> rank_in tag_seq (tag (OxmlElement n (call_tag call)))"
      using p(3) by (simp add: OxmlElement_def order_less_imp_le)
    show "\<forall>d\<in>set post. rank_in tag_seq (tag (OxmlElement n (call_tag call))) < rank_in tag_seq (tag d)"
      using p(4) by (simp add: OxmlElement_def)
  qed
  with p(2) show ?thesis by simp
next
  case (Some c)
  then have "run_call (n, call) e = e" by (simp add: run_call_present)
  with so show ?thesis by simp
qed

lemma run_calls_schema_order:
  "schema_order (children e) \<Longrightarrow> schema_order (children (run_calls calls e))"
proof (induction calls arbitrary: e)
  case Nil
  then show ?case by simp
next
  case (Cons c calls)
  obtain n call where c: "c = (n, call)" by (cases c)
  from Cons.prems have "schema_order (children (run_call (n, call) e))"
    by (rule run_call_schema_order)
  with Cons.IH c show ?case by simp
qed

text \<open>
  C1. On cell properties whose children are in the fixed schema order, any run of
  \<^verbatim>\<open>get_or_add\<close> calls for the width, the grid span and the vertical merge, in any order
  of the calls, leaves the children in the schema order. A call for a child that is
  present changes nothing; a call for an absent child puts the new child right after the
  children that come earlier in the tag sequence and right before those that come later.
\<close>

theorem tcPr_children_schema_order:
  assumes "schema_order (children e)"
  shows "schema_order (children (run_calls calls e))
    \<and> (\<forall>n call.
          (find_child e (call_tag call) \<noteq> None \<longrightarrow> run_call (n, call) e = e)
          \<and> (find_child e (call_tag call) = None \<longrightarrow>
               (\<exists>pre post. children e = pre @ post
                  \<and> children (run_call (n, call) e) = pre @ [OxmlElement n (call_tag call)] @ post
                  \<and> (\<forall>d\<in>set pre. rank_in tag_seq (tag d) < rank_in tag_seq (call_tag call))
                  \<and> (\<forall>d\<in>set post. rank_in tag_seq (call_tag call) < rank_in tag_seq (tag d)))))"
proof (intro conjI allI impI)
  show "schema_order (children (run_calls calls e))"
    using assms by (rule run_calls_schema_order)
next
  fix n call
  assume "find_child e (call_tag call) \<noteq> None"
  then show "run_call (n, call) e = e" by (rule run_call_present)
next
  fix n call
  assume "find_child e (call_tag call) = None"
  with assms show "\<exists>pre post. children e = pre @ post
      \<and> children (run_call (n, call) e) = pre @ [OxmlElement n (call_tag call)] @ post
      \<and> (\<forall>d\<in>set pre. rank_in tag_seq (tag d) < rank_in tag_seq (call_tag call))
      \<and> (\<forall>d\<in>set post. rank_in tag_seq (call_tag call) < rank_in tag_seq (tag d))"
    by (rule run_call_absent)
qed

theorem tcPr_children_schema_order_witness:
  "run_calls [(1, Call_vMerge), (2, Call_gridSpan), (3, Call_tcW), (4, Call_vMerge)]
      (Element 0 ''w:tcPr'' [] [Element 9 ''w:shd'' [] []])
     = Element 0 ''w:tcPr'' []
         [Element 3 ''w:tcW'' [] [], Element 2 ''w:gridSpan'' [] [], Element 1 ''w:vMerge'' [] [],
          Element 9 ''w:shd'' [] []]
   \<and> schema_order
         [Element 3 ''w:tcW'' [] [], Element 2 ''w:gridSpan'' [] [], Element 1 ''w:vMerge'' [] [],
          Element 9 ''w:shd'' [] []]
   \<and> run_call (1, Call_vMerge) (Element 0 ''w:tcPr'' [] [Element 2 ''w:gridSpan'' [] []])
     = Element 0 ''w:tcPr'' [] [Element 2 ''w:gridSpan'' [] [], Element 1 ''w:vMerge'' [] []]"
  using tcPr_children_schema_order [of "Element 0 ''w:tcPr'' [] [Element 9 ''w:shd'' [] []]"
      "[(1, Call_vMerge), (2, Call_gridSpan), (3, Call_tcW), (4, Call_vMerge)]"]
    tcPr_children_schema_order [of "Element 0 ''w:tcPr'' [] [Element 2 ''w:gridSpan'' [] []]" "[]"]
  by (simp add: schema_order_def tag_seq_def get_or_add_tcW_def get_or_add_gridSpan_def
      get_or_add_vMerge_def get_or_add_def add_child_def find_child_def
      insert_element_before_def insert_at_def append_child_def set_children_def OxmlElement_def)

end
